theory Spec2Isabelle
  imports Complex_Main
begin

section \<open>Values, errors and the heap of list objects\<close>

text \<open>
  Samples are Python floats; they are modelled as real numbers, so every statement below
  is about the exact arithmetic the code approximates. Python integers are unbounded:
  sample counts and indices are \<open>nat\<close>, and \<open>int\<close> where a difference is taken.

  Every exception the modelled code can raise is a value of \<open>error\<close>; a function that
  can raise returns \<open>error + 'a\<close> with \<open>Inl\<close> for the exception.
\<close>

datatype error = IndexError | ZeroDivisionError | NameError | ValueError

text \<open>
  Python lists are mutable objects with identity. The heap is the sequence of all list
  objects created so far; an address is a position in it. Creating a list appends it.
\<close>

type_synonym addr = nat
type_synonym heap = "real list list"

definition alloc :: "heap \<Rightarrow> real list \<Rightarrow> heap \<times> addr" where
  "alloc h xs = (h @ [xs], length h)"

text \<open>
  A \<open>for\<close> loop that appends to a result list and stops at the first exception:
  \<open>body i\<close> is what one iteration appends (or the exception it raises).
\<close>

fun for_collect :: "('i \<Rightarrow> error + 'a list) \<Rightarrow> 'i list \<Rightarrow> error + 'a list" where
  "for_collect body [] = Inr []"
| "for_collect body (i # rest) =
     (case body i of
        Inl e \<Rightarrow> Inl e
      | Inr xs \<Rightarrow> (case for_collect body rest of Inl e \<Rightarrow> Inl e | Inr ys \<Rightarrow> Inr (xs @ ys)))"

section \<open>common\_lib.py\<close>

text \<open>
  \<^verbatim>\<open>padded = [data[0]] * (window_size // 2) + data + [data[-1]] * (window_size // 2)\<close>
  reads \<open>data[0]\<close> even when the padding is empty, so an empty list raises IndexError.
\<close>

definition padded_data :: "real list \<Rightarrow> nat \<Rightarrow> error + real list" where
  "padded_data data window_size =
     (if data = [] then Inl IndexError
      else Inr (replicate (window_size div 2) (hd data) @ data
                @ replicate (window_size div 2) (last data)))"

text \<open>\<^verbatim>\<open>mean = sum(data) / number_of_data\<close>\<close>

definition mean_value :: "real list \<Rightarrow> nat \<Rightarrow> error + real" where
  "mean_value data number_of_data =
     (if number_of_data = 0 then Inl ZeroDivisionError
      else Inr (sum_list data / real number_of_data))"

text \<open>
  \<^verbatim>\<open>s = 0; mean = mean_value(data, number_of_data)
  for value in data: s += + (value - mean)**2
  variance = s / number_of_data\<close>
\<close>

definition variance :: "real list \<Rightarrow> nat \<Rightarrow> error + real" where
  "variance data number_of_data =
     (case mean_value data number_of_data of
        Inl e \<Rightarrow> Inl e
      | Inr mean \<Rightarrow>
          Inr (foldl (\<lambda>s value. s + (value - mean)\<^sup>2) 0 data / real number_of_data))"

text \<open>\<^verbatim>\<open>std_dev = numpy.sqrt(variance)\<close>\<close>

definition std_dev :: "real \<Rightarrow> real" where
  "std_dev v = sqrt v"

section \<open>vector.py: the series\<close>

text \<open>
  The fields of a \<open>vector\<close> object. \<open>original_data\<close> and \<open>current\<close> hold references to
  list objects; \<open>self_n\<close> is the field \<open>n\<close>, assigned once in \<open>__init__\<close>.
\<close>

record vector =
  original_data :: addr
  current :: addr
  header :: "string option"
  self_n :: nat

text \<open>
  The argument of \<open>vector(vec)\<close> is a list whose first element may be a string (the
  header) and whose other elements are floats. A list with a header is only ever sliced
  (\<open>vec[1:]\<close> builds a new list object each time), so it is passed by value; a list
  without header is kept by reference, so it is passed as the address of a list object.
\<close>

datatype pyvec = WithHeader string "real list" | NoHeader addr

text \<open>
  \<^verbatim>\<open>if isinstance(vec[0], str): header = vec[0]; vec = vec[1:]
  else: header = None; vec = vec
  return vec, header\<close>
\<close>

definition check_header :: "heap \<Rightarrow> pyvec \<Rightarrow> error + (heap \<times> addr \<times> string option)" where
  "check_header h vec =
     (case vec of
        WithHeader s xs \<Rightarrow> (let (h', a) = alloc h xs in Inr (h', a, Some s))
      | NoHeader a \<Rightarrow> (if h ! a = [] then Inl IndexError else Inr (h, a, None)))"

text \<open>\<^verbatim>\<open>n = len(self.current)\<close>\<close>

definition number_values :: "heap \<Rightarrow> addr \<Rightarrow> nat" where
  "number_values h cur = length (h ! cur)"

text \<open>
  \<^verbatim>\<open>self.original_data = self.check_header(vec)[0]
  self.current       = self.check_header(vec)[0]
  self.header        = self.check_header(vec)[1]
  self.n             = self.number_values()\<close>
\<close>

definition vector_init :: "heap \<Rightarrow> pyvec \<Rightarrow> error + (heap \<times> vector)" where
  "vector_init h vec =
     (case check_header h vec of
        Inl e \<Rightarrow> Inl e
      | Inr (h1, a1, _) \<Rightarrow>
          (case check_header h1 vec of
             Inl e \<Rightarrow> Inl e
           | Inr (h2, a2, _) \<Rightarrow>
               (case check_header h2 vec of
                  Inl e \<Rightarrow> Inl e
                | Inr (h3, _, hd3) \<Rightarrow>
                    Inr (h3, \<lparr>original_data = a1, current = a2, header = hd3,
                              self_n = number_values h3 a2\<rparr>))))"

subsection \<open>detect\_spikes\<close>

text \<open>
  \<open>int(self.n * ratio)\<close> truncates the product; with \<open>max(..., 10)\<close> around it a negative
  product gives \<open>10\<close> whether it is truncated or floored.
\<close>

definition window_size_of :: "nat \<Rightarrow> real \<Rightarrow> nat" where
  "window_size_of k window_ratio = max (nat \<lfloor>real k * window_ratio\<rfloor>) 10"

text \<open>
  One iteration of the loop of \<open>detect_spikes\<close>:
  \<^verbatim>\<open>window           = padded_data[i:i+window_size]
  center_idx       = window_size // 2
  window_wo_center = window[:center_idx] + window[center_idx+1:]
  n_window_center  = len(window_wo_center)
  local_mean = common_lib.mean_value(window_wo_center, n_window_center)
  local_var  = common_lib.variance(window_wo_center, n_window_center)
  local_std  = common_lib.std_dev(local_var)
  if local_std > 0:
      diff = abs(self.current[i] - local_mean)
      if diff > 4.0 * local_std:
          spikes.append([i, self.current[i]])\<close>
\<close>

definition spike_test :: "real list \<Rightarrow> real list \<Rightarrow> nat \<Rightarrow> nat \<Rightarrow> error + (int \<times> real) list" where
  "spike_test cur padded window_size i =
     (let window = take window_size (drop i padded);
          center_idx = window_size div 2;
          window_wo_center = take center_idx window @ drop (center_idx + 1) window;
          n_window_center = length window_wo_center
      in case mean_value window_wo_center n_window_center of
           Inl e \<Rightarrow> Inl e
         | Inr local_mean \<Rightarrow>
             (case variance window_wo_center n_window_center of
                Inl e \<Rightarrow> Inl e
              | Inr local_var \<Rightarrow>
                  (let local_std = std_dev local_var
                   in if local_std > 0
                      then (if i < length cur
                            then (if \<bar>cur ! i - local_mean\<bar> > 4 * local_std
                                  then Inr [(int i, cur ! i)] else Inr [])
                            else Inl IndexError)
                      else Inr [])))"

text \<open>
  \<^verbatim>\<open>window_size = max(int(self.n * 0.05), 10)
  padded_data = common_lib.padded_data(self.current, window_size)
  variance    = common_lib.variance(self.current, self.n)
  global_std  = common_lib.std_dev(variance)
  for i in range(self.n): ...
  return spikes\<close>
\<close>

definition detect_spikes :: "heap \<Rightarrow> vector \<Rightarrow> error + (int \<times> real) list" where
  "detect_spikes h self =
     (let window_size = window_size_of (self_n self) (5 / 100)
      in case padded_data (h ! current self) window_size of
           Inl e \<Rightarrow> Inl e
         | Inr padded \<Rightarrow>
             (case variance (h ! current self) (self_n self) of
                Inl e \<Rightarrow> Inl e
              | Inr global_var \<Rightarrow>
                  for_collect (spike_test (h ! current self) padded window_size)
                    [0 ..< self_n self]))"

subsection \<open>filtered\_data and restore\_spikes\<close>

text \<open>
  \<^verbatim>\<open>window_size = 1 + 2*count
  filtered = []
  padded_data = common_lib.padded_data(self.current, window_size)
  for i in range(self.n):
      window = padded_data[i : i + window_size]
      median = sorted(window)[window_size // 2]
      filtered.append(median)
  return filtered\<close>
  The result is a new list object. \<open>count\<close> is the GUI's counter, never negative.
\<close>

definition median_at :: "real list \<Rightarrow> nat \<Rightarrow> nat \<Rightarrow> error + real list" where
  "median_at padded window_size i =
     (let window = take window_size (drop i padded)
      in if window_size div 2 < length window
         then Inr [sort window ! (window_size div 2)] else Inl IndexError)"

definition filtered_data :: "heap \<Rightarrow> vector \<Rightarrow> nat \<Rightarrow> error + (heap \<times> addr)" where
  "filtered_data h self count =
     (let window_size = 1 + 2 * count
      in case padded_data (h ! current self) window_size of
           Inl e \<Rightarrow> Inl e
         | Inr padded \<Rightarrow>
             (case for_collect (median_at padded window_size) [0 ..< self_n self] of
                Inl e \<Rightarrow> Inl e
              | Inr filtered \<Rightarrow> Inr (alloc h filtered)))"

text \<open>
  \<open>xs[i] = v\<close> on a Python list: a negative index counts from the end, an index out of
  range raises IndexError.
\<close>

definition list_index :: "'a list \<Rightarrow> int \<Rightarrow> error + nat" where
  "list_index xs i =
     (let j = (if i < 0 then i + int (length xs) else i)
      in if 0 \<le> j \<and> j < int (length xs) then Inr (nat j) else Inl IndexError)"

definition list_setitem :: "'a list \<Rightarrow> int \<Rightarrow> 'a \<Rightarrow> error + 'a list" where
  "list_setitem xs i v =
     (case list_index xs i of Inl e \<Rightarrow> Inl e | Inr j \<Rightarrow> Inr (xs[j := v]))"

text \<open>
  \<^verbatim>\<open>for spike in spikes:
      vec[spike[0]] = spike[1]
  return vec\<close>
  The list object \<open>vec\<close> is written in place and the same reference is returned.
\<close>

fun restore_spikes :: "heap \<Rightarrow> (int \<times> real) list \<Rightarrow> addr \<Rightarrow> error + (heap \<times> addr)" where
  "restore_spikes h [] vec = Inr (h, vec)"
| "restore_spikes h (spike # spikes) vec =
     (case list_setitem (h ! vec) (fst spike) (snd spike) of
        Inl e \<Rightarrow> Inl e
      | Inr xs \<Rightarrow> restore_spikes (h[vec := xs]) spikes vec)"

subsection \<open>detect\_stalls\<close>

text \<open>
  The scan over \<open>enumerate(stall_flags)\<close>, with the loop variables \<open>in_stall\<close>, \<open>start\<close>
  and \<open>stalls\<close> as arguments:
  \<^verbatim>\<open>if flag and not in_stall:
      in_stall = True; start = i
  elif not flag and in_stall:
      end = i + window_size - 1
      if (end - start) >= min_stall_length:
          stalls.append((start, min(end, self.n-1)))
      in_stall = False\<close>
\<close>

fun stall_scan ::
  "nat \<Rightarrow> nat \<Rightarrow> (nat \<times> bool) list \<Rightarrow> bool \<Rightarrow> nat \<Rightarrow> (int \<times> int) list
     \<Rightarrow> bool \<times> nat \<times> (int \<times> int) list" where
  "stall_scan window_size k [] in_stall start stalls = (in_stall, start, stalls)"
| "stall_scan window_size k ((i, flag) # rest) in_stall start stalls =
     (if flag \<and> \<not> in_stall then stall_scan window_size k rest True i stalls
      else if \<not> flag \<and> in_stall then
        (let end = int i + int window_size - 1
         in stall_scan window_size k rest False start
              (if end - int start \<ge> 10
               then stalls @ [(int start, min end (int k - 1))] else stalls))
      else stall_scan window_size k rest in_stall start stalls)"

text \<open>
  After the scan:
  \<^verbatim>\<open>if in_stall:
      end = self.n - 1
      if (end - start) >= min_stall_length:
          stalls.append((start, end))
  return stalls\<close>
\<close>

definition stall_close :: "nat \<Rightarrow> bool \<times> nat \<times> (int \<times> int) list \<Rightarrow> (int \<times> int) list" where
  "stall_close k st =
     (case st of (in_stall, start, stalls) \<Rightarrow>
        if in_stall \<and> (int k - 1) - int start \<ge> 10
        then stalls @ [(int start, int k - 1)] else stalls)"

definition stalls_of_flags :: "nat \<Rightarrow> nat \<Rightarrow> bool list \<Rightarrow> (int \<times> int) list" where
  "stalls_of_flags window_size k stall_flags =
     stall_close k
       (stall_scan window_size k (zip [0 ..< length stall_flags] stall_flags) False 0 [])"

text \<open>
  \<^verbatim>\<open>for i in range(self.n - window_size + 1):
      var = common_lib.variance(self.current[i:i+window_size], len(self.current[i:i+window_size]))
      std = common_lib.std_dev(var)
      moving_std.append(std)\<close>
\<close>

definition moving_std_at :: "real list \<Rightarrow> nat \<Rightarrow> nat \<Rightarrow> error + real list" where
  "moving_std_at cur window_size i =
     (let window = take window_size (drop i cur)
      in case variance window (length window) of
           Inl e \<Rightarrow> Inl e
         | Inr var \<Rightarrow> Inr [std_dev var])"

text \<open>
  \<^verbatim>\<open>window_size = max(int(self.n * 0.03), 10)
  variance    = common_lib.variance(self.current, self.n)
  global_std  = common_lib.std_dev(variance)
  if global_std == 0:
      stalls = [(0, n-1)]
  else:
      threshold = global_std * 0.002
      ...
      stall_flags = moving_std < threshold\<close>
  In the first branch the name \<open>n\<close> is bound nowhere (neither in the method nor in the
  module), so evaluating \<open>n-1\<close> raises NameError. The comparison of the list with the
  numpy scalar \<open>threshold\<close> is element-wise.
\<close>

definition detect_stalls :: "heap \<Rightarrow> vector \<Rightarrow> error + (int \<times> int) list" where
  "detect_stalls h self =
     (let window_size = window_size_of (self_n self) (3 / 100)
      in case variance (h ! current self) (self_n self) of
           Inl e \<Rightarrow> Inl e
         | Inr var \<Rightarrow>
             (let global_std = std_dev var
              in if global_std = 0 then Inl NameError
                 else
                   (let threshold = global_std * (2 / 1000)
                    in case for_collect (moving_std_at (h ! current self) window_size)
                              [0 ..< self_n self + 1 - window_size] of
                         Inl e \<Rightarrow> Inl e
                       | Inr moving_std \<Rightarrow>
                           Inr (stalls_of_flags window_size (self_n self)
                                  (map (\<lambda>s. s < threshold) moving_std)))))"

subsection \<open>detect\_oscillations\<close>

text \<open>\<open>numpy.sign\<close> on a real number.\<close>

definition np_sign :: "real \<Rightarrow> int" where
  "np_sign x = (if x < 0 then - 1 else if x = 0 then 0 else 1)"

text \<open>\<^verbatim>\<open>zero_crossings = np.where(np.diff(signs) != 0)[0]\<close>\<close>

definition zero_crossings_of :: "int list \<Rightarrow> nat list" where
  "zero_crossings_of signs =
     filter (\<lambda>j. signs ! (j + 1) - signs ! j \<noteq> 0) [0 ..< length signs - 1]"

text \<open>
  \<open>max(xs, key=abs)\<close>: the first element of largest magnitude; ValueError on an empty
  sequence.
\<close>

definition max_key_abs :: "real list \<Rightarrow> error + real" where
  "max_key_abs xs =
     (case xs of
        [] \<Rightarrow> Inl ValueError
      | x # rest \<Rightarrow> Inr (foldl (\<lambda>m y. if \<bar>y\<bar> > \<bar>m\<bar> then y else m) x rest))"

text \<open>
  \<^verbatim>\<open>for j in range(len(zero_crossings) - 1):
      idx1, idx2 = zero_crossings[j], zero_crossings[j+1]
      length.append(idx2 - idx1)
      local_amp = max(centered[idx1:idx2], key=abs)
      amp.append(abs(local_amp))\<close>
  One iteration appends one gap length and one amplitude; the two lists are kept as one
  list of pairs.
\<close>

definition crossing_pair :: "real list \<Rightarrow> nat list \<Rightarrow> nat \<Rightarrow> error + (int \<times> real) list" where
  "crossing_pair centered zero_crossings j =
     (let idx1 = zero_crossings ! j; idx2 = zero_crossings ! (j + 1)
      in case max_key_abs (take (idx2 - idx1) (drop idx1 centered)) of
           Inl e \<Rightarrow> Inl e
         | Inr local_amp \<Rightarrow> Inr [(int idx2 - int idx1, \<bar>local_amp\<bar>)])"

text \<open>
  \<^verbatim>\<open>amp_var  = common_lib.variance(amp, len(amp))
  amp_std  = common_lib.std_dev(amp_var)
  amp_mean = common_lib.mean_value(amp, len(amp))
  count = 0
  for k in range(len(length)):
      if (length[k] >= 5) and (amp_std < 0.3 * amp_mean):
          count += 1\<close>
\<close>

definition count_regular :: "(int \<times> real) list \<Rightarrow> error + nat" where
  "count_regular pairs =
     (let amp = map snd pairs; lengths = map fst pairs
      in case variance amp (length amp) of
           Inl e \<Rightarrow> Inl e
         | Inr amp_var \<Rightarrow>
             (case mean_value amp (length amp) of
                Inl e \<Rightarrow> Inl e
              | Inr amp_mean \<Rightarrow>
                  Inr (length (filter (\<lambda>k. lengths ! k \<ge> 5 \<and> std_dev amp_var < (3 / 10) * amp_mean)
                                 [0 ..< length lengths]))))"

text \<open>
  The body of the loop of \<open>detect_oscillations\<close> for the window that starts at \<open>start\<close>.
  \<open>detrend\<close> is \<open>scipy.signal.detrend\<close>, a library function; it is a parameter here.
  \<^verbatim>\<open>centered   = detrend(np.array(window))
  local_var  = common_lib.variance(centered, n_window)
  local_std  = common_lib.std_dev(local_var)
  if local_std < 0.01 * global_std:
      continue
  else:
      signs            = np.sign(centered)
      zero_crossings   = np.where(np.diff(signs) != 0)[0]
      if len(zero_crossings) > min_cycles:
          ...
          if count > 3:
              osci_regions.append([start, end])\<close>
\<close>

definition oscillation_at ::
  "(real list \<Rightarrow> error + real list) \<Rightarrow> real list \<Rightarrow> nat \<Rightarrow> real \<Rightarrow> nat
     \<Rightarrow> error + (nat \<times> nat) list" where
  "oscillation_at detrend padded window_size global_std i =
     (let start = i; end = i + window_size;
          window = take (end - start) (drop start padded);
          n_window = length window
      in case detrend window of
           Inl e \<Rightarrow> Inl e
         | Inr centered \<Rightarrow>
             (case variance centered n_window of
                Inl e \<Rightarrow> Inl e
              | Inr local_var \<Rightarrow>
                  (if std_dev local_var < (1 / 100) * global_std then Inr []
                   else
                     (let zero_crossings = zero_crossings_of (map np_sign centered)
                      in if length zero_crossings > 5
                         then (case for_collect (crossing_pair centered zero_crossings)
                                      [0 ..< length zero_crossings - 1] of
                                 Inl e \<Rightarrow> Inl e
                               | Inr pairs \<Rightarrow>
                                   (case count_regular pairs of
                                      Inl e \<Rightarrow> Inl e
                                    | Inr count \<Rightarrow>
                                        (if count > 3 then Inr [(start, end)] else Inr [])))
                         else Inr []))))"

text \<open>
  \<^verbatim>\<open>window_size = max(int(self.n * window_ratio), min_osci_length)
  padded_data = common_lib.padded_data(self.current, window_size)
  variance    = common_lib.variance(self.current, self.n)
  global_std  = common_lib.std_dev(variance)
  for i in range(self.n - window_size + 1): ...
  return osci_regions\<close>
\<close>

definition detect_oscillations ::
  "(real list \<Rightarrow> error + real list) \<Rightarrow> heap \<Rightarrow> vector \<Rightarrow> real \<Rightarrow> error + (nat \<times> nat) list" where
  "detect_oscillations detrend h self window_ratio =
     (let window_size = window_size_of (self_n self) window_ratio
      in case padded_data (h ! current self) window_size of
           Inl e \<Rightarrow> Inl e
         | Inr padded \<Rightarrow>
             (case variance (h ! current self) (self_n self) of
                Inl e \<Rightarrow> Inl e
              | Inr var \<Rightarrow>
                  for_collect (oscillation_at detrend padded window_size (std_dev var))
                    [0 ..< self_n self + 1 - window_size]))"

section \<open>statistical.py\<close>

text \<open>
  \<^verbatim>\<open>self.vector = vector; self.vector_data = self.vector.current\<close>
\<close>

record statistical =
  st_vector :: vector
  vector_data :: addr

definition statistical_init :: "vector \<Rightarrow> statistical" where
  "statistical_init v = \<lparr>st_vector = v, vector_data = current v\<rparr>"

text \<open>
  \<^verbatim>\<open>window_size = int(self.vector.n / 10)
  averages = []
  for i in range(self.vector.n - window_size + 1):
      window = self.vector_data[i:i+window_size]
      avg = sum(window) / window_size
      averages.append(avg)\<close>
  The division by \<open>window_size = 0\<close> raises ZeroDivisionError.
\<close>

definition moving_average :: "heap \<Rightarrow> statistical \<Rightarrow> error + real list" where
  "moving_average h st =
     (let window_size = self_n (st_vector st) div 10
      in for_collect
           (\<lambda>i. let window = take window_size (drop i (h ! vector_data st))
                in if window_size = 0 then Inl ZeroDivisionError
                   else Inr [sum_list window / real window_size])
           [0 ..< self_n (st_vector st) - window_size + 1])"

section \<open>signal\_process.py\<close>

text \<open>
  \<^verbatim>\<open>self.vector = vector; self.time_step = time_step
  self.vector_data = self.vector.current\<close>
\<close>

record signal_process =
  sp_vector :: vector
  time_step :: real
  sp_vector_data :: addr

definition signal_process_init :: "vector \<Rightarrow> real \<Rightarrow> signal_process" where
  "signal_process_init v dt = \<lparr>sp_vector = v, time_step = dt, sp_vector_data = current v\<rparr>"

text \<open>
  \<open>scipy.fft.rfftfreq(n, d)\<close>, a library function, as its documentation and source give
  it: \<^verbatim>\<open>val = 1.0/(n*d); N = n//2 + 1; results = arange(0, N); return results * val\<close>,
  where \<open>d\<close> is the sample spacing.
\<close>

definition rfftfreq :: "nat \<Rightarrow> real \<Rightarrow> error + real list" where
  "rfftfreq k d =
     (if real k * d = 0 then Inl ZeroDivisionError
      else Inr (map (\<lambda>j. real j * (1 / (real k * d))) [0 ..< k div 2 + 1]))"

text \<open>\<^verbatim>\<open>freq = rfftfreq(self.vector.n, d = 1.0/self.time_step)\<close>\<close>

definition frequencies :: "signal_process \<Rightarrow> error + real list" where
  "frequencies sp =
     (if time_step sp = 0 then Inl ZeroDivisionError
      else rfftfreq (self_n (sp_vector sp)) (1 / time_step sp))"

text \<open>
  \<open>scipy.integrate.cumulative_trapezoid(y, dx=dx, initial=0)\<close>, a library function, as
  its documentation and source give it: the running sum of \<open>dx * (y[k+1] + y[k]) / 2\<close>
  with a leading \<open>0\<close>; an empty input is refused with ValueError.
\<close>

fun cumsum_from :: "real \<Rightarrow> real list \<Rightarrow> real list" where
  "cumsum_from acc [] = []"
| "cumsum_from acc (x # xs) = (acc + x) # cumsum_from (acc + x) xs"

definition cumulative_trapezoid :: "real list \<Rightarrow> real \<Rightarrow> error + real list" where
  "cumulative_trapezoid y dx =
     (if y = [] then Inl ValueError
      else Inr (0 # cumsum_from 0 (map (\<lambda>(a, b). dx * (a + b) / 2) (zip (tl y) (butlast y)))))"

text \<open>
  \<^verbatim>\<open>data  = np.asarray(self.vector_data)
  integ = cumulative_trapezoid(data, dx = self.time_step, initial=0)
  integ = integ.tolist()\<close>
  The result is a new list object.
\<close>

definition integral :: "heap \<Rightarrow> signal_process \<Rightarrow> error + (heap \<times> addr)" where
  "integral h sp =
     (case cumulative_trapezoid (h ! sp_vector_data sp) (time_step sp) of
        Inl e \<Rightarrow> Inl e
      | Inr integ \<Rightarrow> Inr (alloc h integ))"

section \<open>app\_gui.py: the operations that replace \<open>current\<close>\<close>

text \<open>
  The fields of \<open>SignalAnalyzer\<close> that the operations read and write, with the fields
  \<open>vectors\<close> and \<open>time_step\<close> of its \<open>results\<close> object, and the heap of list objects.
\<close>

record analyzer =
  store :: heap
  vectors :: "vector list"
  results_time_step :: real
  current_signal_index :: nat
  filtered_count :: nat

text \<open>
  \<^verbatim>\<open>i = self.current_signal_index
  self.results.vectors[i].current = self.results.vectors[i].original_data\<close>
\<close>

definition restore_data :: "analyzer \<Rightarrow> error + analyzer" where
  "restore_data g =
     (let i = current_signal_index g
      in if i < length (vectors g)
         then Inr (g\<lparr>vectors := (vectors g)[i := (vectors g ! i)\<lparr>current := original_data (vectors g ! i)\<rparr>]\<rparr>)
         else Inl IndexError)"

text \<open>
  \<^verbatim>\<open>sig_proc = signal_process(self.results.vectors[i], self.results.time_step)
  self.results.vectors[i].current = sig_proc.integral()\<close>
\<close>

definition integration :: "analyzer \<Rightarrow> error + analyzer" where
  "integration g =
     (let i = current_signal_index g
      in if i < length (vectors g)
         then (case integral (store g) (signal_process_init (vectors g ! i) (results_time_step g)) of
                 Inl e \<Rightarrow> Inl e
               | Inr (h', a) \<Rightarrow>
                   Inr (g\<lparr>store := h', vectors := (vectors g)[i := (vectors g ! i)\<lparr>current := a\<rparr>]\<rparr>))
         else Inl IndexError)"

text \<open>
  \<^verbatim>\<open>filtered = self.results.vectors[i].filtered_data(self.filtered_count)
  self.results.vectors[i].current = filtered
  self.filtered_count += 1\<close>
\<close>

definition gui_filtered_data :: "analyzer \<Rightarrow> error + analyzer" where
  "gui_filtered_data g =
     (let i = current_signal_index g
      in if i < length (vectors g)
         then (case filtered_data (store g) (vectors g ! i) (filtered_count g) of
                 Inl e \<Rightarrow> Inl e
               | Inr (h', a) \<Rightarrow>
                   Inr (g\<lparr>store := h', vectors := (vectors g)[i := (vectors g ! i)\<lparr>current := a\<rparr>],
                          filtered_count := filtered_count g + 1\<rparr>))
         else Inl IndexError)"

text \<open>
  \<^verbatim>\<open>spikes = self.results.vectors[i].detect_spikes()
  filtered = self.results.vectors[i].filtered_data(self.filtered_count)
  filtered = self.results.vectors[i].restore_spikes(spikes, filtered)
  self.results.vectors[i].current = filtered
  self.filtered_count += 1\<close>
\<close>

definition filtered_data_keep_spikes :: "analyzer \<Rightarrow> error + analyzer" where
  "filtered_data_keep_spikes g =
     (let i = current_signal_index g
      in if i < length (vectors g)
         then (case detect_spikes (store g) (vectors g ! i) of
                 Inl e \<Rightarrow> Inl e
               | Inr spikes \<Rightarrow>
                   (case filtered_data (store g) (vectors g ! i) (filtered_count g) of
                      Inl e \<Rightarrow> Inl e
                    | Inr (h1, a1) \<Rightarrow>
                        (case restore_spikes h1 spikes a1 of
                           Inl e \<Rightarrow> Inl e
                         | Inr (h2, a2) \<Rightarrow>
                             Inr (g\<lparr>store := h2,
                                    vectors := (vectors g)[i := (vectors g ! i)\<lparr>current := a2\<rparr>],
                                    filtered_count := filtered_count g + 1\<rparr>))))
         else Inl IndexError)"

text \<open>The menu commands that replace \<open>current\<close>, and a sequence of them.\<close>

datatype command = Filter | FilterKeepSpikes | Integrate | Restore

fun run_command :: "analyzer \<Rightarrow> command \<Rightarrow> error + analyzer" where
  "run_command g Filter = gui_filtered_data g"
| "run_command g FilterKeepSpikes = filtered_data_keep_spikes g"
| "run_command g Integrate = integration g"
| "run_command g Restore = restore_data g"


section \<open>Statements of the specification\<close>

text \<open>
  The frequency bins as the specification states them, for \<open>count\<close> samples spaced \<open>dt\<close>
  apart: bin \<open>k\<close> is \<open>k / (count * dt)\<close>, for \<open>k\<close> from \<open>0\<close> to \<open>floor(count / 2)\<close>.
\<close>

definition frequency_bins_spec :: "nat \<Rightarrow> real \<Rightarrow> real list" where
  "frequency_bins_spec count dt = map (\<lambda>k. real k / (real count * dt)) [0 ..< count div 2 + 1]"

text \<open>
  The invariant of a series: \<open>count\<close> is the length of \<open>current\<close> and of the original
  sequence, \<open>count \<ge> 1\<close>, and both references are to existing list objects.
\<close>

definition series_ok :: "heap \<Rightarrow> vector \<Rightarrow> bool" where
  "series_ok h v \<longleftrightarrow>
     current v < length h \<and> original_data v < length h
     \<and> self_n v = length (h ! current v)
     \<and> length (h ! original_data v) = self_n v
     \<and> 1 \<le> self_n v"

text \<open>
  The selected series of the analyzer satisfies the invariant and its original sequence
  is \<open>orig\<close>.
\<close>

definition analyzer_ok :: "analyzer \<Rightarrow> real list \<Rightarrow> bool" where
  "analyzer_ok g orig \<longleftrightarrow>
     current_signal_index g < length (vectors g)
     \<and> series_ok (store g) (vectors g ! current_signal_index g)
     \<and> store g ! original_data (vectors g ! current_signal_index g) = orig"

text \<open>The samples of a constructor argument, and its reference being to an existing list.\<close>

definition samples_of :: "heap \<Rightarrow> pyvec \<Rightarrow> real list" where
  "samples_of h vec = (case vec of WithHeader s xs \<Rightarrow> xs | NoHeader a \<Rightarrow> h ! a)"

definition pyvec_ok :: "heap \<Rightarrow> pyvec \<Rightarrow> bool" where
  "pyvec_ok h vec = (case vec of WithHeader s xs \<Rightarrow> True | NoHeader a \<Rightarrow> a < length h)"

section \<open>Loops that collect\<close>

lemma for_collect_total:
  "for_collect (\<lambda>i. Inr (g i)) js = Inr (concat (map g js))"
  by (induction js) simp_all

lemma for_collect_singletons:
  "for_collect (\<lambda>i. Inr [g i]) js = Inr (map g js)"
  by (induction js) simp_all

lemma for_collect_cong:
  "(\<And>i. i \<in> set js \<Longrightarrow> f i = g i) \<Longrightarrow> for_collect f js = for_collect g js"
proof (induction js)
  case Nil
  show ?case by simp
next
  case (Cons j js)
  have "f j = g j" and "for_collect f js = for_collect g js"
    using Cons by simp_all
  then show ?case by (simp split: sum.splits)
qed

lemma for_collect_first_raises:
  "body i = Inl e \<Longrightarrow> for_collect body (i # rest) = Inl e"
  by simp

section \<open>moving\_average\<close>

lemma moving_average_raises:
  assumes "self_n (st_vector st) div 10 = 0"
  shows "moving_average h st = Inl ZeroDivisionError"
proof -
  have "[0 ..< self_n (st_vector st) + 1] = 0 # [1 ..< self_n (st_vector st) + 1]"
    by (simp add: upt_rec)
  then show ?thesis
    using assms by (simp add: moving_average_def)
qed

lemma moving_average_returns:
  assumes "self_n (st_vector st) div 10 \<noteq> 0"
  shows "moving_average h st =
           Inr (map (\<lambda>i. sum_list (take (self_n (st_vector st) div 10) (drop i (h ! vector_data st)))
                          / real (self_n (st_vector st) div 10))
                    [0 ..< self_n (st_vector st) - self_n (st_vector st) div 10 + 1])"
  using assms by (simp add: moving_average_def Let_def for_collect_singletons)

text \<open>
  Claim C5. For a sequence of \<open>n \<ge> 1\<close> samples (the count field equal to the length of
  the data), \<open>moving_average\<close> raises when \<open>floor(n/10) = 0\<close>, that is when \<open>n < 10\<close>;
  otherwise it returns exactly \<open>n - floor(n/10) + 1\<close> averages, and the entry at offset
  \<open>i\<close>, for \<open>i\<close> from \<open>0\<close> to \<open>n - floor(n/10)\<close>, is the mean of the window of length
  \<open>floor(n/10)\<close> that starts at \<open>i\<close>.
\<close>

theorem moving_average_spec:
  fixes h :: heap and st :: statistical
  defines "data \<equiv> h ! vector_data st"
  defines "w \<equiv> self_n (st_vector st) div 10"
  assumes len: "self_n (st_vector st) = length data" and pos: "1 \<le> length data"
  shows "(w = 0) = (length data < 10)
       \<and> (w = 0 \<longrightarrow> moving_average h st = Inl ZeroDivisionError)
       \<and> (w \<noteq> 0 \<longrightarrow>
            (\<exists>averages. moving_average h st = Inr averages
               \<and> length averages = length data - w + 1
               \<and> (\<forall>i. i \<le> length data - w \<longrightarrow>
                      length (take w (drop i data)) = w
                    \<and> averages ! i = sum_list (take w (drop i data)) / real w)))"
proof (intro conjI impI)
  show "(w = 0) = (length data < 10)"
    using len by (auto simp: w_def)
  show "moving_average h st = Inl ZeroDivisionError" if "w = 0"
    using that unfolding w_def by (rule moving_average_raises)
  show "\<exists>averages. moving_average h st = Inr averages
            \<and> length averages = length data - w + 1
            \<and> (\<forall>i. i \<le> length data - w \<longrightarrow>
                   length (take w (drop i data)) = w
                 \<and> averages ! i = sum_list (take w (drop i data)) / real w)"
    if nz: "w \<noteq> 0"
  proof -
    have wle: "w \<le> length data"
      using len by (simp add: w_def)
    have eq: "moving_average h st =
        Inr (map (\<lambda>i. sum_list (take w (drop i data)) / real w) [0 ..< length data - w + 1])"
      using moving_average_returns [of st h] nz len unfolding w_def data_def by simp
    have "\<forall>i. i \<le> length data - w \<longrightarrow>
            length (take w (drop i data)) = w
          \<and> map (\<lambda>i. sum_list (take w (drop i data)) / real w) [0 ..< length data - w + 1] ! i
              = sum_list (take w (drop i data)) / real w"
    proof (intro allI impI conjI)
      fix i assume i: "i \<le> length data - w"
      show "length (take w (drop i data)) = w"
        using i wle by simp
      have "i < length [0 ..< length data - w + 1]"
        using i by simp
      then show "map (\<lambda>i. sum_list (take w (drop i data)) / real w) [0 ..< length data - w + 1] ! i
              = sum_list (take w (drop i data)) / real w"
        by (simp del: upt_Suc add: nth_map [of i] )
    qed
    with eq show ?thesis by simp
  qed
qed

theorem moving_average_spec_witness:
  "moving_average [[1, 2, 3]]
       (statistical_init \<lparr>original_data = 0, current = 0, header = None, self_n = 3\<rparr>)
     = Inl ZeroDivisionError
   \<and> (\<exists>averages.
        moving_average [[1, 2, 3, 4, 5, 6, 7, 8, 9, 10, 11, 12, 13, 14, 15, 16, 17, 18, 19, 20, 21]]
          (statistical_init \<lparr>original_data = 0, current = 0, header = None, self_n = 21\<rparr>)
          = Inr averages
        \<and> length averages = 20 \<and> averages ! 19 = 41 / 2)"
proof -
  define st3 where "st3 = statistical_init \<lparr>original_data = 0, current = 0, header = None, self_n = 3\<rparr>"
  define st21 where "st21 = statistical_init \<lparr>original_data = 0, current = 0, header = None, self_n = 21\<rparr>"
  define xs :: "real list"
    where "xs = [1, 2, 3, 4, 5, 6, 7, 8, 9, 10, 11, 12, 13, 14, 15, 16, 17, 18, 19, 20, 21]"
  have a: "moving_average [[1, 2, 3]] st3 = Inl ZeroDivisionError"
    using moving_average_spec [of st3 "[[1, 2, 3]]"]
    by (simp add: st3_def statistical_init_def)
  have l: "length xs = 21" and d: "[xs] ! vector_data st21 = xs"
    and n: "self_n (st_vector st21) = 21"
    by (simp_all add: xs_def st21_def statistical_init_def)
  have "\<exists>averages. moving_average [xs] st21 = Inr averages
          \<and> length averages = 21 - 2 + 1
          \<and> (\<forall>i. i \<le> 21 - 2 \<longrightarrow> length (take 2 (drop i xs)) = 2
                 \<and> averages ! i = sum_list (take 2 (drop i xs)) / real 2)"
    using moving_average_spec [of st21 "[xs]"] unfolding d n l by simp
  then obtain averages where b: "moving_average [xs] st21 = Inr averages"
      "length averages = 21 - 2 + 1"
      "\<forall>i. i \<le> 21 - 2 \<longrightarrow> length (take 2 (drop i xs)) = 2
                 \<and> averages ! i = sum_list (take 2 (drop i xs)) / real 2"
    by blast
  from b(3) have "averages ! 19 = sum_list (take 2 (drop 19 xs)) / real 2"
    by simp
  then have "averages ! 19 = 41 / 2"
    by (simp add: xs_def)
  with a b(1,2) show ?thesis
    unfolding st3_def st21_def xs_def by auto
qed

section \<open>Mean and variance\<close>

lemma foldl_add_sq:
  "foldl (\<lambda>s value. s + (value - m)\<^sup>2) (a::real) xs = a + sum_list (map (\<lambda>value. (value - m)\<^sup>2) xs)"
  by (induction xs arbitrary: a) simp_all

lemma variance_eq:
  "k \<noteq> 0 \<Longrightarrow> variance xs k =
     Inr (sum_list (map (\<lambda>value. (value - sum_list xs / real k)\<^sup>2) xs) / real k)"
  by (simp add: variance_def mean_value_def foldl_add_sq)

lemma variance_zero_count: "variance xs 0 = Inl ZeroDivisionError"
  by (simp add: variance_def mean_value_def)

lemma sum_list_const:
  "\<forall>x\<in>set xs. x = c \<Longrightarrow> sum_list xs = real (length xs) * c"
  by (induction xs) (simp_all add: algebra_simps)

lemma variance_const:
  assumes "\<forall>x\<in>set xs. x = c" and "xs \<noteq> []"
  shows "variance xs (length xs) = Inr 0"
proof -
  have m: "sum_list xs / real (length xs) = c"
    using assms by (simp add: sum_list_const)
  have "sum_list (map (\<lambda>value. (value - c)\<^sup>2) xs) = 0"
    using assms(1) by (induction xs) simp_all
  then show ?thesis
    using assms(2) by (simp add: variance_eq m)
qed

lemma detect_stalls_constant:
  assumes "\<forall>x\<in>set (h ! current self). x = c" and "h ! current self \<noteq> []"
    and "self_n self = length (h ! current self)"
  shows "detect_stalls h self = Inl NameError"
  using variance_const [OF assms(1,2)] assms(3)
  by (simp add: detect_stalls_def std_dev_def)

text \<open>
  Claim C2. For a series whose samples are all identical, \<open>detect_stalls\<close> should take the
  degenerate branch without raising and return the single interval \<open>(0, count - 1)\<close>. The
  code takes the branch but raises there: the branch reads the unbound name \<open>n\<close>. Shown on
  twenty samples equal to \<open>5\<close>.
\<close>

theorem detect_stalls_constant_raises:
  "detect_stalls [replicate 20 5]
     \<lparr>original_data = 0, current = 0, header = None, self_n = 20\<rparr> = Inl NameError"
  by (rule detect_stalls_constant [where c = 5]) simp_all

section \<open>frequencies\<close>

lemma frequencies_bins:
  assumes "time_step sp \<noteq> 0" and "self_n (sp_vector sp) \<noteq> 0"
  shows "frequencies sp =
           Inr (map (\<lambda>k. real k * time_step sp / real (self_n (sp_vector sp)))
                    [0 ..< self_n (sp_vector sp) div 2 + 1])"
  using assms by (simp add: frequencies_def rfftfreq_def)

text \<open>
  Claim C3. \<open>frequencies()\<close> should return the bins \<open>k / (count * dt)\<close>. The code passes
  \<open>1 / dt\<close> where the library expects the sample spacing \<open>dt\<close>, so it returns
  \<open>k * dt / count\<close>. Shown on four samples spaced \<open>1/2\<close> apart.
\<close>

theorem frequencies_not_spec_bins:
  "frequencies (signal_process_init
       \<lparr>original_data = 0, current = 0, header = None, self_n = 4\<rparr> (1 / 2))
     = Inr [0, 1 / 8, 1 / 4]
   \<and> frequency_bins_spec 4 (1 / 2) = [0, 1 / 2, 1]"
  by (simp add: frequencies_def rfftfreq_def signal_process_init_def frequency_bins_spec_def
      upt_rec)

section \<open>The median filter\<close>

lemma padded_data_one: "data \<noteq> [] \<Longrightarrow> padded_data data (Suc 0) = Inr data"
  by (simp add: padded_data_def)

lemma median_at_one: "i < length xs \<Longrightarrow> median_at xs (Suc 0) i = Inr [xs ! i]"
  by (simp add: median_at_def take_Suc_conv_app_nth hd_drop_conv_nth take_Suc)

lemma filtered_loop_one:
  "for_collect (median_at xs (Suc 0)) [0 ..< length xs] = Inr xs"
proof -
  have "for_collect (median_at xs (Suc 0)) [0 ..< length xs]
          = for_collect (\<lambda>i. Inr [xs ! i]) [0 ..< length xs]"
    by (rule for_collect_cong) (simp add: median_at_one)
  also have "\<dots> = Inr (map (\<lambda>i. xs ! i) [0 ..< length xs])"
    by (rule for_collect_singletons)
  finally show ?thesis by (simp add: map_nth)
qed

lemma filtered_data_zero:
  assumes "h ! current self \<noteq> []" and "self_n self = length (h ! current self)"
  shows "filtered_data h self 0 = Inr (h @ [h ! current self], length h)"
  using assms by (simp add: filtered_data_def padded_data_one filtered_loop_one alloc_def)

text \<open>
  Claim C8. For a series (at least one sample, the count field equal to the length of
  \<open>current\<close>), the median filter with \<open>count_param = 0\<close> returns a list equal to \<open>current\<close>;
  the list is a new object, and \<open>current\<close> and every other existing list object are left
  as they were.
\<close>

theorem filtered_data_identity:
  assumes "current self < length h" and "h ! current self \<noteq> []"
    and "self_n self = length (h ! current self)"
  shows "\<exists>h' filtered. filtered_data h self 0 = Inr (h', filtered)
           \<and> h' ! filtered = h ! current self
           \<and> filtered \<noteq> current self
           \<and> h' ! current self = h ! current self
           \<and> (\<forall>a. a < length h \<longrightarrow> h' ! a = h ! a)"
  using assms by (simp add: filtered_data_zero nth_append)

theorem filtered_data_identity_witness:
  "filtered_data [[3, 1, 2]] \<lparr>original_data = 0, current = 0, header = None, self_n = 3\<rparr> 0
     = Inr ([[3, 1, 2], [3, 1, 2]], 1)"
proof -
  let ?v = "\<lparr>original_data = 0, current = 0, header = None, self_n = 3\<rparr>"
  let ?h = "[[3, 1, 2]] :: heap"
  have "\<exists>h' filtered. filtered_data ?h ?v 0 = Inr (h', filtered)
           \<and> h' ! filtered = ?h ! current ?v
           \<and> filtered \<noteq> current ?v
           \<and> h' ! current ?v = ?h ! current ?v
           \<and> (\<forall>a. a < length ?h \<longrightarrow> h' ! a = ?h ! a)"
    by (rule filtered_data_identity) simp_all
  then obtain h' filtered where r: "filtered_data ?h ?v 0 = Inr (h', filtered)"
    by blast
  moreover have "filtered_data ?h ?v 0 = Inr (?h @ [?h ! current ?v], length ?h)"
    by (rule filtered_data_zero) simp_all
  ultimately show ?thesis by simp
qed

section \<open>restore\_spikes\<close>

lemma restore_spikes_frame:
  "restore_spikes h S a = Inr (h', a') \<Longrightarrow>
     a' = a \<and> length h' = length h \<and> (\<forall>b. b \<noteq> a \<longrightarrow> h' ! b = h ! b)"
proof (induction S arbitrary: h)
  case Nil
  then show ?case by simp
next
  case (Cons s S)
  then show ?case
    by (auto simp: list_setitem_def split: sum.splits)
qed







section \<open>Operations that never raise on a series\<close>

lemma padded_data_length:
  "padded_data xs w = Inr p \<Longrightarrow> length p = length xs + 2 * (w div 2)"
  by (auto simp: padded_data_def split: if_splits)

lemma padded_data_ok: "xs \<noteq> [] \<Longrightarrow> \<exists>p. padded_data xs w = Inr p"
  by (simp add: padded_data_def)

lemma for_collect_all_ok:
  assumes "\<And>i. i \<in> set js \<Longrightarrow> \<exists>xs. f i = Inr xs"
  shows "for_collect f js = Inr (concat (map (\<lambda>i. case f i of Inl e \<Rightarrow> [] | Inr xs \<Rightarrow> xs) js))"
  using assms
proof (induction js)
  case Nil
  show ?case by simp
next
  case (Cons j js)
  obtain xs where "f j = Inr xs" using Cons.prems by auto
  moreover have "for_collect f js =
      Inr (concat (map (\<lambda>i. case f i of Inl e \<Rightarrow> [] | Inr xs \<Rightarrow> xs) js))"
    using Cons by simp
  ultimately show ?case by simp
qed

lemma median_at_ok:
  assumes "i + w \<le> length p" and "0 < w"
  shows "\<exists>m. median_at p w i = Inr [m]"
  using assms by (simp add: median_at_def)

lemma filtered_loop_length:
  assumes "length p = k + 2 * c"
  shows "\<exists>filtered. for_collect (median_at p (1 + 2 * c)) [0 ..< k] = Inr filtered
           \<and> length filtered = k"
proof -
  have ok: "\<And>i. i \<in> set [0 ..< k] \<Longrightarrow> \<exists>m. median_at p (1 + 2 * c) i = Inr [m]"
    using assms by (intro median_at_ok) auto
  then have "for_collect (median_at p (1 + 2 * c)) [0 ..< k] =
      Inr (concat (map (\<lambda>i. case median_at p (1 + 2 * c) i of Inl e \<Rightarrow> [] | Inr xs \<Rightarrow> xs) [0 ..< k]))"
    by (intro for_collect_all_ok) blast
  moreover have "length (concat (map (\<lambda>i. case median_at p (1 + 2 * c) i of Inl e \<Rightarrow> [] | Inr xs \<Rightarrow> xs) js)) = length js"
    if "set js \<subseteq> set [0 ..< k]" for js
    using that
  proof (induction js)
    case Nil
    show ?case by simp
  next
    case (Cons j js)
    then obtain m where "median_at p (1 + 2 * c) j = Inr [m]" using ok by auto
    then show ?case using Cons by simp
  qed
  ultimately show ?thesis by simp
qed

lemma filtered_data_total:
  assumes "h ! current self \<noteq> []" and "self_n self = length (h ! current self)"
  shows "\<exists>filtered. filtered_data h self c = Inr (h @ [filtered], length h)
           \<and> length filtered = self_n self"
proof -
  obtain p where p: "padded_data (h ! current self) (1 + 2 * c) = Inr p"
    using padded_data_ok [OF assms(1)] by blast
  have "length p = self_n self + 2 * c"
    using padded_data_length [OF p] assms(2) by simp
  then obtain filtered where "for_collect (median_at p (1 + 2 * c)) [0 ..< self_n self] = Inr filtered"
      "length filtered = self_n self"
    using filtered_loop_length by blast
  then show ?thesis
    using p by (simp add: filtered_data_def alloc_def)
qed

lemma cumsum_from_length: "length (cumsum_from acc xs) = length xs"
  by (induction xs arbitrary: acc) simp_all

lemma cumulative_trapezoid_length:
  "y \<noteq> [] \<Longrightarrow> \<exists>integ. cumulative_trapezoid y dx = Inr integ \<and> length integ = length y"
  by (cases y) (simp_all add: cumulative_trapezoid_def cumsum_from_length)

lemma integral_total:
  assumes "h ! current v \<noteq> []"
  shows "\<exists>integ. integral h (signal_process_init v dt) = Inr (h @ [integ], length h)
           \<and> length integ = length (h ! current v)"
proof -
  obtain integ where "cumulative_trapezoid (h ! current v) dt = Inr integ"
      "length integ = length (h ! current v)"
    using cumulative_trapezoid_length [OF assms] by blast
  then show ?thesis
    by (simp add: integral_def signal_process_init_def alloc_def)
qed

lemma for_collect_Inr_iff:
  "for_collect f js = Inr ys \<longleftrightarrow>
     (\<forall>j\<in>set js. \<exists>xs. f j = Inr xs)
     \<and> ys = concat (map (\<lambda>i. case f i of Inl e \<Rightarrow> [] | Inr xs \<Rightarrow> xs) js)"
proof (induction js arbitrary: ys)
  case Nil
  show ?case by auto
next
  case (Cons j js)
  show ?case
  proof (cases "f j")
    case (Inl e)
    then show ?thesis by auto
  next
    case (Inr xs)
    show ?thesis
    proof (cases "for_collect f js")
      case (Inl e)
      then have "\<not> (\<forall>j\<in>set js. \<exists>xs. f j = Inr xs)"
        using Cons.IH by (metis Inl_Inr_False for_collect_all_ok)
      then show ?thesis using Inl Inr by auto
    next
      case r: (Inr zs)
      then show ?thesis using Inr Cons.IH [of zs] by auto
    qed
  qed
qed

lemma for_collect_member:
  assumes "for_collect f js = Inr ys"
  shows "y \<in> set ys \<longleftrightarrow> (\<exists>j\<in>set js. \<exists>xs. f j = Inr xs \<and> y \<in> set xs)"
proof -
  have all: "\<forall>j\<in>set js. \<exists>xs. f j = Inr xs"
    and ys: "ys = concat (map (\<lambda>i. case f i of Inl e \<Rightarrow> [] | Inr xs \<Rightarrow> xs) js)"
    using assms by (simp_all add: for_collect_Inr_iff)
  show ?thesis
  proof
    assume "y \<in> set ys"
    then obtain j where j: "j \<in> set js" "y \<in> set (case f j of Inl e \<Rightarrow> [] | Inr xs \<Rightarrow> xs)"
      unfolding ys by auto
    then obtain xs where "f j = Inr xs" using all by blast
    then show "\<exists>j\<in>set js. \<exists>xs. f j = Inr xs \<and> y \<in> set xs"
      using j by auto
  next
    assume "\<exists>j\<in>set js. \<exists>xs. f j = Inr xs \<and> y \<in> set xs"
    then show "y \<in> set ys" unfolding ys by force
  qed
qed

lemma window_size_of_ge: "10 \<le> window_size_of k r"
  by (simp add: window_size_of_def)

lemma spike_test_cases:
  assumes "length padded = length cur + 2 * (w div 2)" and "i < length cur" and "2 \<le> w"
  shows "spike_test cur padded w i = Inr [] \<or> spike_test cur padded w i = Inr [(int i, cur ! i)]"
proof -
  define window where "window = take w (drop i padded)"
  define wo where "wo = take (w div 2) window @ drop (w div 2 + 1) window"
  have "w \<le> length padded - i"
    using assms by arith
  then have lw: "length window = w"
    by (simp add: window_def)
  have "length wo = min (w div 2) w + (w - (w div 2 + 1))"
    by (simp add: wo_def lw)
  then have nz: "length wo \<noteq> 0"
    using assms(3) by arith
  obtain m where m: "mean_value wo (length wo) = Inr m"
    using nz by (simp add: mean_value_def)
  obtain v where v: "variance wo (length wo) = Inr v"
    using nz by (simp add: variance_def mean_value_def)
  have "spike_test cur padded w i =
      (case mean_value wo (length wo) of
         Inl e \<Rightarrow> Inl e
       | Inr local_mean \<Rightarrow>
           (case variance wo (length wo) of
              Inl e \<Rightarrow> Inl e
            | Inr local_var \<Rightarrow>
                (if std_dev local_var > 0
                 then (if i < length cur
                       then (if \<bar>cur ! i - local_mean\<bar> > 4 * std_dev local_var
                             then Inr [(int i, cur ! i)] else Inr [])
                       else Inl IndexError)
                 else Inr [])))"
    unfolding spike_test_def Let_def wo_def window_def ..
  then show ?thesis
    using assms(2) by (simp add: m v)
qed

lemma detect_spikes_total:
  assumes "h ! current self \<noteq> []" and "self_n self = length (h ! current self)"
  shows "\<exists>spikes. detect_spikes h self = Inr spikes
           \<and> (\<forall>s\<in>set spikes. 0 \<le> fst s \<and> fst s < int (self_n self))"
proof -
  let ?w = "window_size_of (self_n self) (5 / 100)"
  let ?cur = "h ! current self"
  obtain p where p: "padded_data ?cur ?w = Inr p"
    using padded_data_ok [OF assms(1)] by blast
  have lp: "length p = length ?cur + 2 * (?w div 2)"
    using padded_data_length [OF p] .
  have w2: "2 \<le> ?w" using window_size_of_ge [of "self_n self" "5 / 100"] by simp
  have cases: "\<And>i. i \<in> set [0 ..< self_n self] \<Longrightarrow>
      spike_test ?cur p ?w i = Inr [] \<or> spike_test ?cur p ?w i = Inr [(int i, ?cur ! i)]"
    using assms(2) by (intro spike_test_cases [OF lp _ w2]) simp
  then have "\<And>i. i \<in> set [0 ..< self_n self] \<Longrightarrow> \<exists>xs. spike_test ?cur p ?w i = Inr xs"
    by blast
  then obtain spikes where sp: "for_collect (spike_test ?cur p ?w) [0 ..< self_n self] = Inr spikes"
    using for_collect_all_ok by blast
  have "\<forall>s\<in>set spikes. 0 \<le> fst s \<and> fst s < int (self_n self)"
  proof
    fix s assume "s \<in> set spikes"
    then obtain j xs where j: "j \<in> set [0 ..< self_n self]" "spike_test ?cur p ?w j = Inr xs" "s \<in> set xs"
      using for_collect_member [OF sp] by blast
    then have "s = (int j, ?cur ! j)"
      using cases [OF j(1)] by auto
    then show "0 \<le> fst s \<and> fst s < int (self_n self)"
      using j(1) by simp
  qed
  moreover have "self_n self \<noteq> 0" using assms by simp
  then have "\<exists>gv. variance ?cur (self_n self) = Inr gv"
    by (simp add: variance_def mean_value_def)
  ultimately show ?thesis
    using p sp by (auto simp: detect_spikes_def Let_def)
qed

lemma restore_spikes_total:
  assumes "vec < length h"
    and "\<forall>s\<in>set S. 0 \<le> fst s \<and> fst s < int (length (h ! vec))"
  shows "\<exists>h'. restore_spikes h S vec = Inr (h', vec)
           \<and> length h' = length h
           \<and> (\<forall>b. b \<noteq> vec \<longrightarrow> h' ! b = h ! b)
           \<and> length (h' ! vec) = length (h ! vec)"
  using assms
proof (induction S arbitrary: h)
  case Nil
  then show ?case by simp
next
  case (Cons s S)
  let ?f = "h ! vec"
  have p: "list_index ?f (fst s) = Inr (nat (fst s))" and pl: "nat (fst s) < length ?f"
    using Cons.prems(2) by (auto simp: list_index_def)
  let ?h1 = "h[vec := ?f[nat (fst s) := snd s]]"
  have h1: "?h1 ! vec = ?f[nat (fst s) := snd s]" "length ?h1 = length h"
    using Cons.prems(1) by simp_all
  have step: "restore_spikes h (s # S) vec = restore_spikes ?h1 S vec"
    by (simp add: list_setitem_def p)
  have "\<exists>h'. restore_spikes ?h1 S vec = Inr (h', vec)
           \<and> length h' = length ?h1
           \<and> (\<forall>b. b \<noteq> vec \<longrightarrow> h' ! b = ?h1 ! b)
           \<and> length (h' ! vec) = length (?h1 ! vec)"
  proof (rule Cons.IH)
    show "vec < length ?h1" using Cons.prems(1) by simp
    show "\<forall>s\<in>set S. 0 \<le> fst s \<and> fst s < int (length (?h1 ! vec))"
      using Cons.prems(2) by (simp add: h1)
  qed
  then show ?case
    unfolding step using h1 by auto
qed

section \<open>The operations that replace \<open>current\<close>\<close>

lemma series_ok_commit:
  assumes "series_ok h v" and "length h2 = length h + 1"
    and "\<forall>b. b < length h \<longrightarrow> h2 ! b = h ! b"
    and "length (h2 ! length h) = self_n v"
  shows "series_ok h2 (v\<lparr>current := length h\<rparr>)"
    and "h2 ! original_data (v\<lparr>current := length h\<rparr>) = h ! original_data v"
  using assms by (simp_all add: series_ok_def)

lemma series_ok_nonempty: "series_ok h v \<Longrightarrow> h ! current v \<noteq> []"
  by (auto simp: series_ok_def)

lemma analyzer_ok_update:
  assumes "analyzer_ok g orig" and "series_ok h2 v2"
    and "h2 ! original_data v2 = store g ! original_data (vectors g ! current_signal_index g)"
    and "store g' = h2" and "vectors g' = (vectors g)[current_signal_index g := v2]"
    and "current_signal_index g' = current_signal_index g"
  shows "analyzer_ok g' orig"
  using assms by (simp add: analyzer_ok_def)

lemma restore_data_ok:
  assumes "analyzer_ok g orig"
  shows "\<exists>g'. restore_data g = Inr g' \<and> analyzer_ok g' orig
           \<and> current_signal_index g' = current_signal_index g
           \<and> store g' ! current (vectors g' ! current_signal_index g') = orig"
proof -
  let ?i = "current_signal_index g"
  let ?v = "vectors g ! ?i"
  let ?g' = "g\<lparr>vectors := (vectors g)[?i := ?v\<lparr>current := original_data ?v\<rparr>]\<rparr>"
  have i: "?i < length (vectors g)" using assms by (simp add: analyzer_ok_def)
  have r: "restore_data g = Inr ?g'"
    using i by (simp add: restore_data_def Let_def)
  have s: "series_ok (store g) (?v\<lparr>current := original_data ?v\<rparr>)"
    using assms unfolding analyzer_ok_def series_ok_def by auto
  have "analyzer_ok ?g' orig"
    by (rule analyzer_ok_update [OF assms s]) simp_all
  moreover have "store ?g' ! current (vectors ?g' ! current_signal_index ?g') = orig"
    using assms i by (simp add: analyzer_ok_def)
  ultimately show ?thesis using r by simp
qed

lemma integration_ok:
  assumes "analyzer_ok g orig"
  shows "\<exists>g'. integration g = Inr g' \<and> analyzer_ok g' orig
           \<and> current_signal_index g' = current_signal_index g"
proof -
  let ?i = "current_signal_index g"
  let ?v = "vectors g ! ?i"
  let ?h = "store g"
  have i: "?i < length (vectors g)" and so: "series_ok ?h ?v"
    using assms by (simp_all add: analyzer_ok_def)
  obtain integ where integ: "integral ?h (signal_process_init ?v (results_time_step g))
        = Inr (?h @ [integ], length ?h)" and li: "length integ = length (?h ! current ?v)"
    using integral_total [OF series_ok_nonempty [OF so]] by blast
  let ?v2 = "?v\<lparr>current := length ?h\<rparr>"
  let ?g' = "g\<lparr>store := ?h @ [integ], vectors := (vectors g)[?i := ?v2]\<rparr>"
  have r: "integration g = Inr ?g'"
    using i integ by (simp add: integration_def Let_def)
  have l4: "length ((?h @ [integ]) ! length ?h) = self_n ?v"
    using li so by (simp add: series_ok_def)
  have s: "series_ok (?h @ [integ]) ?v2"
    by (rule series_ok_commit(1) [OF so _ _ l4]) (simp_all add: nth_append)
  have o: "(?h @ [integ]) ! original_data ?v2 = ?h ! original_data ?v"
    by (rule series_ok_commit(2) [OF so _ _ l4]) (simp_all add: nth_append)
  have "analyzer_ok ?g' orig"
    by (rule analyzer_ok_update [OF assms s o]) simp_all
  then show ?thesis using r by simp
qed

lemma gui_filtered_data_ok:
  assumes "analyzer_ok g orig"
  shows "\<exists>g'. gui_filtered_data g = Inr g' \<and> analyzer_ok g' orig
           \<and> current_signal_index g' = current_signal_index g"
proof -
  let ?i = "current_signal_index g"
  let ?v = "vectors g ! ?i"
  let ?h = "store g"
  have i: "?i < length (vectors g)" and so: "series_ok ?h ?v"
    using assms by (simp_all add: analyzer_ok_def)
  have n: "self_n ?v = length (?h ! current ?v)" using so by (simp add: series_ok_def)
  obtain filtered where f: "filtered_data ?h ?v (filtered_count g)
        = Inr (?h @ [filtered], length ?h)" and lf: "length filtered = self_n ?v"
    using filtered_data_total [OF series_ok_nonempty [OF so] n] by blast
  let ?v2 = "?v\<lparr>current := length ?h\<rparr>"
  let ?g' = "g\<lparr>store := ?h @ [filtered], vectors := (vectors g)[?i := ?v2],
               filtered_count := filtered_count g + 1\<rparr>"
  have r: "gui_filtered_data g = Inr ?g'"
    using i f by (simp add: gui_filtered_data_def Let_def)
  have l4: "length ((?h @ [filtered]) ! length ?h) = self_n ?v"
    using lf by simp
  have s: "series_ok (?h @ [filtered]) ?v2"
    by (rule series_ok_commit(1) [OF so _ _ l4]) (simp_all add: nth_append)
  have o: "(?h @ [filtered]) ! original_data ?v2 = ?h ! original_data ?v"
    by (rule series_ok_commit(2) [OF so _ _ l4]) (simp_all add: nth_append)
  have "analyzer_ok ?g' orig"
    by (rule analyzer_ok_update [OF assms s o]) simp_all
  then show ?thesis using r by simp
qed

lemma filtered_data_keep_spikes_ok:
  assumes "analyzer_ok g orig"
  shows "\<exists>g'. filtered_data_keep_spikes g = Inr g' \<and> analyzer_ok g' orig
           \<and> current_signal_index g' = current_signal_index g"
proof -
  let ?i = "current_signal_index g"
  let ?v = "vectors g ! ?i"
  let ?h = "store g"
  have i: "?i < length (vectors g)" and so: "series_ok ?h ?v"
    using assms by (simp_all add: analyzer_ok_def)
  have n: "self_n ?v = length (?h ! current ?v)" using so by (simp add: series_ok_def)
  obtain spikes where sp: "detect_spikes ?h ?v = Inr spikes"
      and spv: "\<forall>s\<in>set spikes. 0 \<le> fst s \<and> fst s < int (self_n ?v)"
    using detect_spikes_total [OF series_ok_nonempty [OF so] n] by blast
  obtain filtered where f: "filtered_data ?h ?v (filtered_count g)
        = Inr (?h @ [filtered], length ?h)" and lf: "length filtered = self_n ?v"
    using filtered_data_total [OF series_ok_nonempty [OF so] n] by blast
  let ?h1 = "?h @ [filtered]"
  have "\<exists>h2. restore_spikes ?h1 spikes (length ?h) = Inr (h2, length ?h)
           \<and> length h2 = length ?h1
           \<and> (\<forall>b. b \<noteq> length ?h \<longrightarrow> h2 ! b = ?h1 ! b)
           \<and> length (h2 ! length ?h) = length (?h1 ! length ?h)"
    by (rule restore_spikes_total) (use spv lf in simp_all)
  then obtain h2 where rs: "restore_spikes ?h1 spikes (length ?h) = Inr (h2, length ?h)"
      and l2: "length h2 = length ?h1"
      and fr: "\<forall>b. b \<noteq> length ?h \<longrightarrow> h2 ! b = ?h1 ! b"
      and ll: "length (h2 ! length ?h) = length (?h1 ! length ?h)"
    by blast
  let ?v2 = "?v\<lparr>current := length ?h\<rparr>"
  let ?g' = "g\<lparr>store := h2, vectors := (vectors g)[?i := ?v2],
               filtered_count := filtered_count g + 1\<rparr>"
  have r: "filtered_data_keep_spikes g = Inr ?g'"
    using i sp f rs by (simp add: filtered_data_keep_spikes_def Let_def)
  have l3: "length h2 = length ?h + 1" using l2 by simp
  have fr2: "\<forall>b. b < length ?h \<longrightarrow> h2 ! b = ?h ! b"
    using fr by (simp add: nth_append)
  have l4: "length (h2 ! length ?h) = self_n ?v"
    using ll lf by simp
  have s: "series_ok h2 ?v2"
    by (rule series_ok_commit(1) [OF so l3 fr2 l4])
  have o: "h2 ! original_data ?v2 = ?h ! original_data ?v"
    by (rule series_ok_commit(2) [OF so l3 fr2 l4])
  have "analyzer_ok ?g' orig"
    by (rule analyzer_ok_update [OF assms s o]) simp_all
  then show ?thesis using r by simp
qed

lemma run_command_ok:
  assumes "analyzer_ok g orig"
  shows "\<exists>g'. run_command g c = Inr g' \<and> analyzer_ok g' orig
           \<and> current_signal_index g' = current_signal_index g"
proof (cases c)
  case Filter
  then show ?thesis using gui_filtered_data_ok [OF assms] by simp
next
  case FilterKeepSpikes
  then show ?thesis using filtered_data_keep_spikes_ok [OF assms] by simp
next
  case Integrate
  then show ?thesis using integration_ok [OF assms] by simp
next
  case Restore
  then show ?thesis using restore_data_ok [OF assms] by auto
qed


lemma vector_init_cases:
  assumes "vector_init h0 vec = Inr (h, v)"
  shows "self_n v = length (h ! current v)"
    and "pyvec_ok h0 vec \<Longrightarrow> samples_of h0 vec \<noteq> [] \<Longrightarrow> series_ok h v"
    and "pyvec_ok h0 vec \<Longrightarrow> h ! original_data v = samples_of h0 vec"
    and "pyvec_ok h0 vec \<Longrightarrow> h ! current v = samples_of h0 vec"
proof -
  show "self_n v = length (h ! current v)"
    using assms
    by (cases vec)
      (auto simp: vector_init_def check_header_def alloc_def number_values_def nth_append
        split: if_splits)
  show "series_ok h v" if "pyvec_ok h0 vec" "samples_of h0 vec \<noteq> []"
    using assms that
    by (cases vec)
      (auto simp: vector_init_def check_header_def alloc_def number_values_def series_ok_def
        pyvec_ok_def samples_of_def nth_append Suc_le_eq split: if_splits)
  show "h ! original_data v = samples_of h0 vec" if "pyvec_ok h0 vec"
    using assms that
    by (cases vec)
      (auto simp: vector_init_def check_header_def alloc_def number_values_def
        pyvec_ok_def samples_of_def nth_append split: if_splits)
  show "h ! current v = samples_of h0 vec" if "pyvec_ok h0 vec"
    using assms that
    by (cases vec)
      (auto simp: vector_init_def check_header_def alloc_def number_values_def
        pyvec_ok_def samples_of_def nth_append split: if_splits)
qed



text \<open>
  Claim C10. The constructor sets \<open>count\<close> to the length of \<open>current\<close>. On a series that
  satisfies the invariant, \<open>filtered_data\<close> (for every parameter) and \<open>integral\<close> do not
  raise and return a list of exactly \<open>count\<close> elements; and every command that replaces
  \<open>current\<close> (filter, filter keeping spikes, integrate, restore) keeps the invariant, so
  \<open>count\<close> is still the length of \<open>current\<close>.
\<close>

theorem count_invariant:
  "(vector_init h0 vec = Inr (h1, v1) \<longrightarrow> self_n v1 = length (h1 ! current v1))
   \<and> (series_ok h v \<longrightarrow>
        (\<exists>h' filtered. filtered_data h v c = Inr (h', filtered)
            \<and> length (h' ! filtered) = self_n v)
      \<and> (\<exists>h' integ. integral h (signal_process_init v dt) = Inr (h', integ)
            \<and> length (h' ! integ) = self_n v))
   \<and> (analyzer_ok g orig \<longrightarrow>
        (\<exists>g'. run_command g cmd = Inr g' \<and> analyzer_ok g' orig
           \<and> self_n (vectors g' ! current_signal_index g')
               = length (store g' ! current (vectors g' ! current_signal_index g'))))"
proof (intro conjI impI)
  show "self_n v1 = length (h1 ! current v1)" if "vector_init h0 vec = Inr (h1, v1)"
    using vector_init_cases(1) [OF that] .
next
  assume so: "series_ok h v"
  then have n: "self_n v = length (h ! current v)" by (simp add: series_ok_def)
  obtain filtered where "filtered_data h v c = Inr (h @ [filtered], length h)"
      "length filtered = self_n v"
    using filtered_data_total [OF series_ok_nonempty [OF so] n] by blast
  then show "\<exists>h' filtered. filtered_data h v c = Inr (h', filtered)
            \<and> length (h' ! filtered) = self_n v"
    by simp
  obtain integ where "integral h (signal_process_init v dt) = Inr (h @ [integ], length h)"
      "length integ = length (h ! current v)"
    using integral_total [OF series_ok_nonempty [OF so]] by blast
  then show "\<exists>h' integ. integral h (signal_process_init v dt) = Inr (h', integ)
            \<and> length (h' ! integ) = self_n v"
    using n by simp
next
  assume "analyzer_ok g orig"
  then obtain g' where "run_command g cmd = Inr g'" "analyzer_ok g' orig"
    using run_command_ok by blast
  then show "\<exists>g'. run_command g cmd = Inr g' \<and> analyzer_ok g' orig
           \<and> self_n (vectors g' ! current_signal_index g')
               = length (store g' ! current (vectors g' ! current_signal_index g'))"
    by (auto simp: analyzer_ok_def series_ok_def)
qed

theorem count_invariant_witness:
  "self_n \<lparr>original_data = 0, current = 1, header = Some ''I'', self_n = 3\<rparr>
     = length ([[1, 5, 2], [1, 5, 2], [1, 5, 2]] ! 1 :: real list)
   \<and> (\<exists>h' filtered. filtered_data [[1, 5, 2], [1, 5, 2], [1, 5, 2]]
          \<lparr>original_data = 0, current = 1, header = Some ''I'', self_n = 3\<rparr> 1 = Inr (h', filtered)
        \<and> length (h' ! filtered) = 3)
   \<and> (\<exists>h' integ. integral [[1, 5, 2], [1, 5, 2], [1, 5, 2]]
          (signal_process_init \<lparr>original_data = 0, current = 1, header = Some ''I'', self_n = 3\<rparr> 1)
          = Inr (h', integ)
        \<and> length (h' ! integ) = 3)
   \<and> (\<exists>g'. run_command
          \<lparr>store = [[1, 5, 2], [1, 5, 2], [1, 5, 2]],
           vectors = [\<lparr>original_data = 0, current = 1, header = Some ''I'', self_n = 3\<rparr>],
           results_time_step = 1, current_signal_index = 0, filtered_count = 0\<rparr> Integrate = Inr g'
        \<and> self_n (vectors g' ! current_signal_index g')
            = length (store g' ! current (vectors g' ! current_signal_index g')))"
proof -
  let ?h = "[[1, 5, 2], [1, 5, 2], [1, 5, 2]] :: heap"
  let ?v = "\<lparr>original_data = 0, current = 1, header = Some ''I'', self_n = 3\<rparr>"
  let ?g = "\<lparr>store = ?h, vectors = [?v],
           results_time_step = 1, current_signal_index = 0, filtered_count = 0\<rparr>"
  have i: "vector_init [] (WithHeader ''I'' [1, 5, 2]) = Inr (?h, ?v)"
    by (simp add: vector_init_def check_header_def alloc_def number_values_def)
  have s: "series_ok ?h ?v"
    by (simp add: series_ok_def)
  have a: "analyzer_ok ?g [1, 5, 2]"
    by (simp add: analyzer_ok_def series_ok_def)
  note T = count_invariant [of "[]" "WithHeader ''I'' [1, 5, 2]" ?h ?v ?h ?v 1 1 ?g "[1, 5, 2]" Integrate]
  from T i have c1: "self_n ?v = length (?h ! current ?v)" by blast
  from T s have c2: "\<exists>h' filtered. filtered_data ?h ?v 1 = Inr (h', filtered)
            \<and> length (h' ! filtered) = self_n ?v" by blast
  from T s have c3: "\<exists>h' integ. integral ?h (signal_process_init ?v 1) = Inr (h', integ)
            \<and> length (h' ! integ) = self_n ?v" by blast
  from T a have c4: "\<exists>g'. run_command ?g Integrate = Inr g' \<and> analyzer_ok g' [1, 5, 2]
           \<and> self_n (vectors g' ! current_signal_index g')
               = length (store g' ! current (vectors g' ! current_signal_index g'))" by blast
  from c1 c2 c3 c4 show ?thesis by simp blast
qed

end
